theory Spec2Isabelle
  imports Main "HOL-Library.AList" "HOL-Library.Sublist"
begin

section \<open>JavaScript values read from session files\<close>

text \<open>
  A value produced by \<^verbatim>\<open>JSON.parse\<close>. An object holds its own properties in
  the order \<^verbatim>\<open>Object.values\<close> enumerates them, each key once. Numbers are the
  integer-valued ones (printed in decimal by string conversion). A character is one
  8-bit unit; the source counts UTF-16 units, which is the same for ASCII text.
\<close>

datatype json =
    JNull
  | JBool bool
  | JNum int
  | JStr string
  | JArr "json list"
  | JObj "(string \<times> json) list"

text \<open>Property read \<^verbatim>\<open>v.k\<close> on a value that is not null: \<open>None\<close> is
  \<^verbatim>\<open>undefined\<close>. None of the keys the program reads is a property of a
  primitive or of an array.\<close>

fun get :: "string \<Rightarrow> json \<Rightarrow> json option" where
  "get k (JObj kvs) = map_of kvs k"
| "get k v = None"

fun truthy :: "json \<Rightarrow> bool" where
  "truthy JNull = False"
| "truthy (JBool b) = b"
| "truthy (JNum n) = (n \<noteq> 0)"
| "truthy (JStr s) = (s \<noteq> [])"
| "truthy (JArr vs) = True"
| "truthy (JObj kvs) = True"

text \<open>\<^verbatim>\<open>a || b\<close> where \<open>a\<close> may be undefined and \<open>b\<close> is a value.\<close>

definition orElse :: "json option \<Rightarrow> json \<Rightarrow> json" where
  "orElse a b = (case a of None \<Rightarrow> b | Some v \<Rightarrow> if truthy v then v else b)"

text \<open>\<^verbatim>\<open>a || b\<close> where both may be undefined.\<close>

definition orUndef :: "json option \<Rightarrow> json option \<Rightarrow> json option" where
  "orUndef a b = (case a of None \<Rightarrow> b | Some v \<Rightarrow> if truthy v then Some v else b)"

function natToString :: "nat \<Rightarrow> string" where
  "natToString n =
     (if n < 10 then [char_of (48 + n)]
      else natToString (n div 10) @ [char_of (48 + n mod 10)])"
  by pat_completeness auto
termination
  by (relation "measure (\<lambda>n. n)") auto

definition intToString :: "int \<Rightarrow> string" where
  "intToString i = (if i < 0 then CHR ''-'' # natToString (nat (- i)) else natToString (nat i))"

fun joinWith :: "string \<Rightarrow> string list \<Rightarrow> string" where
  "joinWith sep [] = []"
| "joinWith sep [x] = x"
| "joinWith sep (x # y # ys) = x @ sep @ joinWith sep (y # ys)"

text \<open>String conversion, as a template literal and \<^verbatim>\<open>+\<close> with a string do it.\<close>

fun toString :: "json \<Rightarrow> string" where
  "toString JNull = ''null''"
| "toString (JBool b) = (if b then ''true'' else ''false'')"
| "toString (JNum n) = intToString n"
| "toString (JStr s) = s"
| "toString (JArr vs) =
     joinWith '','' (map (\<lambda>v. if v = JNull then [] else toString v) vs)"
| "toString (JObj kvs) = ''[object Object]''"

section \<open>Regular expressions with the flag i\<close>

text \<open>
  The fragment of \<^verbatim>\<open>RegExp\<close> the scenario's pattern needs: literals, character
  ranges, \<^verbatim>\<open>\s\<close>, sequence, alternative and star, matched ignoring case.
  \<open>rxTest\<close> is \<^verbatim>\<open>rx.test(s)\<close> for a regular expression without the flags
  g and y: it asks for a match starting anywhere in the string.
\<close>

datatype atom = Lit char | Range char char | WhiteSpace

datatype regex = Never | Eps | Atom atom | Seq regex regex | Alt regex regex | Star regex

definition upperChar :: "char \<Rightarrow> char" where
  "upperChar c =
     (if (97::nat) \<le> of_char c \<and> of_char c \<le> (122::nat) then char_of (of_char c - (32::nat)) else c)"

definition lowerChar :: "char \<Rightarrow> char" where
  "lowerChar c =
     (if (65::nat) \<le> of_char c \<and> of_char c \<le> (90::nat) then char_of (of_char c + (32::nat)) else c)"

definition inRange :: "char \<Rightarrow> char \<Rightarrow> char \<Rightarrow> bool" where
  "inRange lo hi c = ((of_char lo :: nat) \<le> of_char c \<and> (of_char c :: nat) \<le> of_char hi)"

fun atomMatch :: "atom \<Rightarrow> char \<Rightarrow> bool" where
  "atomMatch (Lit a) c = (upperChar a = upperChar c)"
| "atomMatch (Range lo hi) c =
     (inRange lo hi c \<or> inRange lo hi (upperChar c) \<or> inRange lo hi (lowerChar c))"
| "atomMatch WhiteSpace c = ((of_char c :: nat) \<in> {9, 10, 11, 12, 13, 32})"

fun nullable :: "regex \<Rightarrow> bool" where
  "nullable Never = False"
| "nullable Eps = True"
| "nullable (Atom a) = False"
| "nullable (Seq r s) = (nullable r \<and> nullable s)"
| "nullable (Alt r s) = (nullable r \<or> nullable s)"
| "nullable (Star r) = True"

fun deriv :: "char \<Rightarrow> regex \<Rightarrow> regex" where
  "deriv c Never = Never"
| "deriv c Eps = Never"
| "deriv c (Atom a) = (if atomMatch a c then Eps else Never)"
| "deriv c (Seq r s) =
     (if nullable r then Alt (Seq (deriv c r) s) (deriv c s) else Seq (deriv c r) s)"
| "deriv c (Alt r s) = Alt (deriv c r) (deriv c s)"
| "deriv c (Star r) = Seq (deriv c r) (Star r)"

text \<open>Some prefix of the string matches.\<close>

fun matchPrefix :: "regex \<Rightarrow> string \<Rightarrow> bool" where
  "matchPrefix r [] = nullable r"
| "matchPrefix r (c # cs) = (nullable r \<or> matchPrefix (deriv c r) cs)"

fun rxTest :: "regex \<Rightarrow> string \<Rightarrow> bool" where
  "rxTest r [] = matchPrefix r []"
| "rxTest r (c # cs) = (matchPrefix r (c # cs) \<or> rxTest r cs)"

section \<open>The danger scan of server.js\<close>

record toolRule =
  toolName :: string
  actions :: "string list option"

text \<open>
  A compiled rule: the rule of the configuration with \<open>regexes\<close> (each the test of
  one compiled pattern) and \<open>toolRules\<close> (\<open>None\<close> is \<^verbatim>\<open>null\<close>, what an
  absent list is compiled to).
\<close>

record rule =
  category :: string
  severity :: string
  label :: "string option"
  regexes :: "(string \<Rightarrow> bool) list"
  toolRules :: "toolRule list option"

record hit =
  msgId :: "json option"
  command :: string
  hit_category :: string
  hit_severity :: string
  hit_label :: "string option"

text \<open>\<^verbatim>\<open>tr.actions.includes(toolAction)\<close>, the list holding strings.\<close>

definition includes_action :: "string list \<Rightarrow> json \<Rightarrow> bool" where
  "includes_action acts v = (case v of JStr a \<Rightarrow> a \<in> set acts | _ \<Rightarrow> False)"

definition toolMatch :: "json \<Rightarrow> json \<Rightarrow> toolRule \<Rightarrow> bool" where
  "toolMatch tname toolAction tr =
     (JStr (toolName tr) = tname \<and>
      (case actions tr of
         None \<Rightarrow> True
       | Some acts \<Rightarrow> truthy toolAction \<and> includes_action acts toolAction))"

definition toolHit :: "json option \<Rightarrow> json \<Rightarrow> json \<Rightarrow> rule \<Rightarrow> hit" where
  "toolHit mid tname toolAction r =
     \<lparr> msgId = mid,
       command = toString tname @ (if truthy toolAction then '': '' @ toString toolAction else []),
       hit_category = category r,
       hit_severity = severity r,
       hit_label = label r \<rparr>"

text \<open>The loops of lines 265 to 278, pushing onto \<open>hits\<close>.\<close>

definition toolRuleStep :: "json option \<Rightarrow> json \<Rightarrow> json \<Rightarrow> rule \<Rightarrow> hit list \<Rightarrow> toolRule \<Rightarrow> hit list" where
  "toolRuleStep mid tname toolAction r hits tr =
     (if toolMatch tname toolAction tr then hits @ [toolHit mid tname toolAction r] else hits)"

definition toolRulesOf :: "json option \<Rightarrow> json \<Rightarrow> json \<Rightarrow> hit list \<Rightarrow> rule \<Rightarrow> hit list" where
  "toolRulesOf mid tname toolAction hits r =
     (case toolRules r of
        None \<Rightarrow> hits
      | Some trs \<Rightarrow> foldl (toolRuleStep mid tname toolAction r) hits trs)"

definition toolHits :: "rule list \<Rightarrow> json option \<Rightarrow> json \<Rightarrow> json \<Rightarrow> hit list" where
  "toolHits compiled mid tname toolAction = foldl (toolRulesOf mid tname toolAction) [] compiled"

text \<open>The walk of lines 283 to 287: every string of more than two characters.\<close>

fun walk :: "json \<Rightarrow> string list" where
  "walk (JStr s) = (if length s > 2 then [s] else [])"
| "walk (JArr vs) = concat (map walk vs)"
| "walk (JObj kvs) = concat (map (\<lambda>kv. walk (snd kv)) kvs)"
| "walk v = []"

definition patternHit :: "json option \<Rightarrow> json \<Rightarrow> rule \<Rightarrow> string \<Rightarrow> hit" where
  "patternHit mid tname r s =
     \<lparr> msgId = mid,
       command = toString (orElse (Some tname) (JStr ''?'')) @ '': '' @ take 200 s,
       hit_category = category r,
       hit_severity = severity r,
       hit_label = label r \<rparr>"

text \<open>
  Lines 292 to 308 for one string and one rule; the state is the set \<open>matched\<close>
  and the hits pushed so far.
\<close>

definition patternStep :: "json option \<Rightarrow> json \<Rightarrow> string \<Rightarrow> string set \<times> hit list \<Rightarrow> rule \<Rightarrow> string set \<times> hit list" where
  "patternStep mid tname s st r =
     (if toolRules r \<noteq> None then st
      else if category r @ s \<in> fst st then st
      else if list_ex (\<lambda>rx. rx s) (regexes r)
        then (insert (category r @ s) (fst st), snd st @ [patternHit mid tname r s])
        else st)"

definition patternHits :: "rule list \<Rightarrow> json option \<Rightarrow> json \<Rightarrow> string list \<Rightarrow> hit list" where
  "patternHits compiled mid tname strings =
     snd (foldl (\<lambda>st s. foldl (patternStep mid tname s) st compiled) ({}, []) strings)"

text \<open>
  One content block (lines 258 to 310). \<open>None\<close>: reading \<^verbatim>\<open>block.type\<close> of
  null threw, before the block pushed a hit.
\<close>

definition blockSrc :: "json \<Rightarrow> json option" where
  "blockSrc block = orUndef (get ''arguments'' block) (get ''input'' block)"

definition blockToolName :: "json \<Rightarrow> json" where
  "blockToolName block = orElse (get ''name'' block) (JStr [])"

definition blockToolAction :: "json \<Rightarrow> json" where
  "blockToolAction block =
     orElse (case blockSrc block of None \<Rightarrow> None | Some src \<Rightarrow> get ''action'' src) (JStr [])"

definition scanBlock :: "rule list \<Rightarrow> json option \<Rightarrow> json \<Rightarrow> hit list option" where
  "scanBlock compiled mid block =
     (if block = JNull then None
      else if get ''type'' block \<noteq> Some (JStr ''toolCall'') then Some []
      else Some (toolHits compiled mid (blockToolName block) (blockToolAction block) @
        (case blockSrc block of
           None \<Rightarrow> []
         | Some src \<Rightarrow>
             if \<not> truthy src then []
             else patternHits compiled mid (blockToolName block) (walk src))))"

text \<open>The blocks of one message: the hits pushed, and whether a block threw.\<close>

fun scanBlocks :: "rule list \<Rightarrow> json option \<Rightarrow> json list \<Rightarrow> hit list \<times> bool" where
  "scanBlocks compiled mid [] = ([], False)"
| "scanBlocks compiled mid (b # bs) =
     (case scanBlock compiled mid b of
        None \<Rightarrow> ([], True)
      | Some hs \<Rightarrow> (hs @ fst (scanBlocks compiled mid bs), snd (scanBlocks compiled mid bs)))"

text \<open>One parsed line (lines 254 to 311).\<close>

definition scanObj :: "rule list \<Rightarrow> json \<Rightarrow> hit list \<times> bool" where
  "scanObj compiled obj =
     (if obj = JNull then ([], True)
      else if get ''type'' obj \<noteq> Some (JStr ''message'') then ([], False)
      else (case get ''message'' obj of
              None \<Rightarrow> ([], False)
            | Some msg \<Rightarrow>
                if \<not> truthy msg then ([], False)
                else (case get ''content'' msg of
                        Some (JArr blocks) \<Rightarrow> scanBlocks compiled (get ''id'' obj) blocks
                      | _ \<Rightarrow> ([], False))))"

text \<open>
  One file (lines 247 to 313), given what \<^verbatim>\<open>JSON.parse\<close> made of each non-blank
  line (\<open>None\<close>: it threw, and the line is skipped). An exception anywhere else
  leaves the loop with the hits pushed so far.
\<close>

fun scanFile :: "rule list \<Rightarrow> json option list \<Rightarrow> hit list" where
  "scanFile compiled [] = []"
| "scanFile compiled (None # ls) = scanFile compiled ls"
| "scanFile compiled (Some obj # ls) =
     (if snd (scanObj compiled obj) then fst (scanObj compiled obj)
      else fst (scanObj compiled obj) @ scanFile compiled ls)"

text \<open>
  For stating the deduplication: the pairs (rule, string) for which lines 297 to 304
  run, in the order of the pushes. \<open>matchStep\<close> is \<open>patternStep\<close> recording the
  pair in place of the hit.
\<close>

definition patternKey :: "rule \<times> string \<Rightarrow> string" where
  "patternKey p = category (fst p) @ snd p"

definition matchStep :: "string \<Rightarrow> string set \<times> (rule \<times> string) list \<Rightarrow> rule \<Rightarrow> string set \<times> (rule \<times> string) list" where
  "matchStep s st r =
     (if toolRules r \<noteq> None then st
      else if category r @ s \<in> fst st then st
      else if list_ex (\<lambda>rx. rx s) (regexes r)
        then (insert (category r @ s) (fst st), snd st @ [(r, s)])
        else st)"

definition patternMatches :: "rule list \<Rightarrow> string list \<Rightarrow> (rule \<times> string) list" where
  "patternMatches compiled strings =
     snd (foldl (\<lambda>st s. foldl (matchStep s) st compiled) ({}, []) strings)"

definition hitsOf :: "json option \<Rightarrow> json \<Rightarrow> string set \<times> (rule \<times> string) list \<Rightarrow> string set \<times> hit list" where
  "hitsOf mid tn st = (fst st, map (\<lambda>p. patternHit mid tn (fst p) (snd p)) (snd st))"

definition matchInv :: "rule list \<Rightarrow> string list \<Rightarrow> string set \<times> (rule \<times> string) list \<Rightarrow> bool" where
  "matchInv rs ss st =
     (fst st = patternKey ` set (snd st) \<and> distinct (map patternKey (snd st)) \<and>
      (\<forall>p\<in>set (snd st). fst p \<in> set rs \<and> toolRules (fst p) = None \<and> snd p \<in> set ss \<and>
         (\<exists>rx\<in>set (regexes (fst p)). rx (snd p))))"

section \<open>The entry parser of the viewer (parseJSONL)\<close>

text \<open>\<^verbatim>\<open>s.split(sep)\<close> for a separator of one character: the pieces between
  separators, at least one.\<close>

fun splitOn :: "char \<Rightarrow> string \<Rightarrow> string list" where
  "splitOn sep [] = [[]]"
| "splitOn sep (c # cs) =
     (if c = sep then [] # splitOn sep cs
      else (case splitOn sep cs of [] \<Rightarrow> [[c]] | l # ls \<Rightarrow> (c # l) # ls))"




record parseError =
  line :: nat
  raw :: string
  error :: string

text \<open>
  An entry of the list: a decoded value with the \<^verbatim>\<open>_lineNumber\<close> set on it, or the
  synthetic entry of type \<^verbatim>\<open>_parseError\<close> with its line number.
\<close>

datatype entry = Decoded json nat | ParseErrorEntry parseError nat







fun errorsOf :: "entry list \<Rightarrow> parseError list" where
  "errorsOf [] = []"
| "errorsOf (Decoded v n # es) = errorsOf es"
| "errorsOf (ParseErrorEntry err n # es) = err # errorsOf es"

text \<open>\<^verbatim>\<open>e.type === 'message'\<close> and \<^verbatim>\<open>e.id === id\<close> for a string \<open>id\<close>.\<close>

fun isMessage :: "entry \<Rightarrow> bool" where
  "isMessage (Decoded v n) = (get ''type'' v = Some (JStr ''message''))"
| "isMessage (ParseErrorEntry err n) = False"

fun hasId :: "string \<Rightarrow> entry \<Rightarrow> bool" where
  "hasId i (Decoded v n) = (get ''id'' v = Some (JStr i))"
| "hasId i (ParseErrorEntry err n) = False"

section \<open>Read progress in the viewer\<close>

record progressEntry =
  lastReadId :: "string option"
  lastReadAt :: "string option"
  totalMsgs :: "int option"
  unreadCount :: "int option"
  readAll :: "bool option"
  customLabel :: "string option"

text \<open>The object \<^verbatim>\<open>{}\<close>.\<close>

definition emptyEntry :: progressEntry where
  "emptyEntry =
     \<lparr> lastReadId = None, lastReadAt = None, totalMsgs = None, unreadCount = None,
       readAll = None, customLabel = None \<rparr>"

text \<open>
  The progress state by value, for the handlers that replace one record: a key is
  bound to the contents of its record.
\<close>

type_synonym progress = "string \<Rightarrow> progressEntry option"

text \<open>\<^verbatim>\<open>!p.lastReadId\<close>: absent or the empty string.\<close>

definition noLastRead :: "progressEntry \<Rightarrow> bool" where
  "noLastRead p = (case lastReadId p of None \<Rightarrow> True | Some i \<Rightarrow> i = [])"

text \<open>\<^verbatim>\<open>n || 0\<close> for an optional number.\<close>

definition orZero :: "int option \<Rightarrow> int" where
  "orZero n = (case n of None \<Rightarrow> 0 | Some k \<Rightarrow> k)"

text \<open>\<^verbatim>\<open>prog[pk]\<close>, or the fresh \<^verbatim>\<open>{}\<close> stored when there is none.\<close>

definition entryOr :: "progress \<Rightarrow> string \<Rightarrow> progressEntry" where
  "entryOr prog pk = (case prog pk of None \<Rightarrow> emptyEntry | Some p \<Rightarrow> p)"

fun findIndex :: "('a \<Rightarrow> bool) \<Rightarrow> 'a list \<Rightarrow> nat option" where
  "findIndex P [] = None"
| "findIndex P (x # xs) = (if P x then Some 0 else map_option Suc (findIndex P xs))"

text \<open>\<^verbatim>\<open>idx === -1 ? msgs.length : msgs.length - idx - 1\<close>.\<close>

definition unreadAfter :: "entry list \<Rightarrow> string \<Rightarrow> int" where
  "unreadAfter msgs i =
     (case findIndex (hasId i) msgs of
        None \<Rightarrow> int (length msgs)
      | Some idx \<Rightarrow> int (length msgs) - int idx - 1)"

record sessionRow =
  Filename :: string
  SessionId :: string

text \<open>\<^verbatim>\<open>row?.SessionId || filename\<close> for the row found by file name.\<close>

definition rowKey :: "sessionRow option \<Rightarrow> string \<Rightarrow> string" where
  "rowKey row fname =
     (case row of None \<Rightarrow> fname | Some r \<Rightarrow> if SessionId r \<noteq> [] then SessionId r else fname)"

text \<open>
  handleMarkRead (lines 287 to 307): the progress it hands to saveProgress, or the
  progress as it was when the danger-only view is on. \<open>now\<close> is the time stamp.
\<close>

definition handleMarkRead :: "bool \<Rightarrow> sessionRow list \<Rightarrow> entry list \<Rightarrow> string \<Rightarrow> progress \<Rightarrow>
    string \<Rightarrow> string \<Rightarrow> progress" where
  "handleMarkRead dangerOnly sessions currentEntries now prog fname messageId =
     (if dangerOnly then prog
      else
        (let pk = rowKey (find (\<lambda>r. Filename r = fname) sessions) fname;
             msgs = filter isMessage currentEntries;
             isLast = (msgs \<noteq> [] \<and> hasId messageId (last msgs));
             unread = unreadAfter msgs messageId
         in prog(pk \<mapsto> (entryOr prog pk)
              \<lparr> lastReadId := Some messageId,
                lastReadAt := Some now,
                totalMsgs := Some (int (length msgs)),
                unreadCount := Some unread,
                readAll := Some isLast \<rparr>)))"


text \<open>A session as the server lists it: \<open>sessionId\<close> is \<open>None\<close> for null.\<close>

record sessionInfo =
  filename :: string
  sessionId :: "string option"

text \<open>\<^verbatim>\<open>s.sessionId || s.filename\<close>.\<close>

definition sessionKey :: "sessionInfo \<Rightarrow> string" where
  "sessionKey s =
     (case sessionId s of None \<Rightarrow> filename s | Some sid \<Rightarrow> if sid = [] then filename s else sid)"

text \<open>The object \<open>sidMap\<close> of lines 119 to 122 and of lines 183 and 184.\<close>

definition sidMapOf :: "sessionInfo list \<Rightarrow> string \<Rightarrow> string option" where
  "sidMapOf sessData =
     foldl (\<lambda>m s. case sessionId s of
                     None \<Rightarrow> m
                   | Some sid \<Rightarrow> if sid = [] then m else m(filename s \<mapsto> sid))
       Map.empty sessData"



section \<open>The initial load and the migration of progress keys\<close>

text \<open>
  The initial load copies the progress object, moves records between keys and then
  writes into records that two keys may share, so the records live in a store: a key
  is bound to the address of its record, an address is an index of the list of
  records. A key list is in the order the object enumerates its keys: a new key goes
  last, a key that is set again keeps its place.
\<close>

type_synonym keys = "(string \<times> nat) list"

text \<open>\<^verbatim>\<open>key.endsWith('.jsonl') || key.includes('.deleted.')\<close>.\<close>

definition isLegacyKey :: "string \<Rightarrow> bool" where
  "isLegacyKey key = (suffix ''.jsonl'' key \<or> sublist ''.deleted.'' key)"

text \<open>Lines 123 to 131 for one entry of \<open>prog\<close>.\<close>

definition migrateStep :: "(string \<Rightarrow> string option) \<Rightarrow> keys \<Rightarrow> string \<times> nat \<Rightarrow> keys" where
  "migrateStep sidMap migratedProg kv =
     (if isLegacyKey (fst kv)
      then AList.delete (fst kv)
        (case sidMap (fst kv) of
           None \<Rightarrow> migratedProg
         | Some sid \<Rightarrow>
             if map_of migratedProg sid = None then AList.update sid (snd kv) migratedProg
             else migratedProg)
      else migratedProg)"

text \<open>Lines 118 to 131: the copy of \<open>prog\<close> after the loop over the entries of
  \<open>prog\<close>.\<close>

definition migrate :: "(string \<Rightarrow> string option) \<Rightarrow> keys \<Rightarrow> keys" where
  "migrate sidMap prog = foldl (migrateStep sidMap) prog prog"

text \<open>Lines 134 to 139 for one listed session, on \<open>migratedProg\<close> and the store.\<close>

definition loadStep :: "(string \<Rightarrow> int option) \<Rightarrow> keys \<times> progressEntry list \<Rightarrow> sessionInfo \<Rightarrow>
    keys \<times> progressEntry list" where
  "loadStep counts st s =
     (let total = orZero (counts (filename s));
          pKey = sessionKey s;
          st1 = (case map_of (fst st) pKey of
                   Some a \<Rightarrow> st
                 | None \<Rightarrow> (AList.update pKey (length (snd st)) (fst st), snd st @ [emptyEntry]))
      in (case map_of (fst st1) pKey of
            None \<Rightarrow> st1
          | Some a \<Rightarrow>
              (let heap1 = (snd st1)[a := ((snd st1) ! a) \<lparr> totalMsgs := Some total \<rparr>]
               in (fst st1,
                   if noLastRead (heap1 ! a)
                   then heap1[a := (heap1 ! a) \<lparr> unreadCount := Some total \<rparr>]
                   else heap1))))"

text \<open>\<^verbatim>\<open>Object.assign(prog, migratedProg)\<close> (line 154).\<close>

definition objectAssign :: "keys \<Rightarrow> keys \<Rightarrow> keys" where
  "objectAssign target source = foldl (\<lambda>t kv. AList.update (fst kv) (snd kv) t) target source"

text \<open>
  The progress the initial load sets (lines 117 to 158), as the list of its keys with
  the contents of their records. The progress fetched has one record for each key.
\<close>

definition initialLoad :: "sessionInfo list \<Rightarrow> (string \<Rightarrow> int option) \<Rightarrow> (string \<times> progressEntry) list \<Rightarrow>
    (string \<times> progressEntry) list" where
  "initialLoad sessData counts fetched =
     (let prog = zip (map fst fetched) [0 ..< length fetched];
          migratedProg = migrate (sidMapOf sessData) prog;
          st = foldl (loadStep counts) (migratedProg, map snd fetched) sessData
      in map (\<lambda>kv. (fst kv, snd st ! snd kv)) (objectAssign prog (fst st)))"

text \<open>The copy \<open>migratedProg\<close> as lines 117 to 131 leave it, with the contents of the
  records.\<close>

definition migratedProgress :: "sessionInfo list \<Rightarrow> (string \<times> progressEntry) list \<Rightarrow>
    (string \<times> progressEntry) list" where
  "migratedProgress sessData fetched =
     map (\<lambda>kv. (fst kv, map snd fetched ! snd kv))
       (migrate (sidMapOf sessData) (zip (map fst fetched) [0 ..< length fetched]))"

section \<open>Reading a session file (readSession)\<close>

text \<open>
  \<^verbatim>\<open>path.resolve(a, b)\<close> of POSIX, from the working directory \<open>cwd\<close> (absolute): the
  rightmost absolute argument and what follows it, joined, then normalised: empty
  segments and \<^verbatim>\<open>.\<close> are dropped and \<^verbatim>\<open>..\<close> drops the segment before it.
\<close>

definition normStep :: "string list \<Rightarrow> string \<Rightarrow> string list" where
  "normStep acc seg =
     (if seg = [] \<or> seg = ''.'' then acc
      else if seg = ''..'' then butlast acc
      else acc @ [seg])"

definition isAbsolute :: "string \<Rightarrow> bool" where
  "isAbsolute p = (case p of [] \<Rightarrow> False | c # cs \<Rightarrow> c = CHR ''/'')"

definition resolve :: "string \<Rightarrow> string \<Rightarrow> string \<Rightarrow> string" where
  "resolve cwd a b =
     (let joined =
        (if isAbsolute b then b
         else if isAbsolute a then a @ ''/'' @ b
         else cwd @ ''/'' @ a @ ''/'' @ b)
      in CHR ''/'' # joinWith ''/'' (foldl normStep [] (splitOn CHR ''/'' joined)))"

text \<open>
  readSession (lines 91 to 97). \<open>files\<close> gives the content of every path that is a
  readable file; \<open>None\<close> is the null returned.
\<close>

definition readSession :: "(string \<Rightarrow> string option) \<Rightarrow> string \<Rightarrow> string \<Rightarrow> string \<Rightarrow> string option" where
  "readSession files cwd SESSIONS_DIR fname =
     (let fullPath = resolve cwd SESSIONS_DIR fname
      in if \<not> prefix SESSIONS_DIR fullPath then None
         else (case files fullPath of None \<Rightarrow> None | Some content \<Rightarrow> Some content))"

text \<open>A path lies inside a directory when it is the directory or continues it after a
  separator.\<close>

definition insideDir :: "string \<Rightarrow> string \<Rightarrow> bool" where
  "insideDir dir p = (p = dir \<or> prefix (dir @ ''/'') p)"

section \<open>Scenarios\<close>

text \<open>
  The pattern \<^verbatim>\<open>rm\s+-[a-zA-Z]*r\<close> compiled with the flag i: the letters r and m, one
  or more white space characters, a hyphen, any number of letters, the letter r.
\<close>

definition rmPattern :: regex where
  "rmPattern =
     Seq (Atom (Lit CHR ''r'')) (Seq (Atom (Lit CHR ''m''))
       (Seq (Seq (Atom WhiteSpace) (Star (Atom WhiteSpace)))
         (Seq (Atom (Lit CHR ''-''))
           (Seq (Star (Alt (Atom (Range CHR ''a'' CHR ''z'')) (Atom (Range CHR ''A'' CHR ''Z''))))
             (Atom (Lit CHR ''r''))))))"

definition rmRules :: "rule list" where
  "rmRules = [\<lparr> category = ''destructive-fs'', severity = ''critical'', label = None,
      regexes = [rxTest rmPattern], toolRules = None \<rparr>]"

definition execBlock :: "string \<Rightarrow> json" where
  "execBlock cmd = JObj [(''type'', JStr ''toolCall''), (''name'', JStr ''exec''),
           (''arguments'', JObj [(''command'', JStr cmd)])]"

definition messageOf :: "json \<Rightarrow> json list \<Rightarrow> json" where
  "messageOf i blocks = JObj [(''type'', JStr ''message''), (''id'', i),
     (''message'', JObj [(''role'', JStr ''assistant''), (''content'', JArr blocks)])]"

definition rmHit :: "json \<Rightarrow> hit" where
  "rmHit i = \<lparr> msgId = Some i, command = ''exec: rm -rf /tmp/x'',
     hit_category = ''destructive-fs'', hit_severity = ''critical'', hit_label = None \<rparr>"

definition nestedArgs :: json where
  "nestedArgs = JObj [(''command'', JStr ''rm -rf /tmp/x''),
     (''more'', JArr [JObj [(''again'', JStr ''rm -rf /tmp/x'')], JStr ''rm -r /a'', JStr ''ls''])]"

definition nestedBlock :: json where
  "nestedBlock = JObj [(''type'', JStr ''toolCall''), (''name'', JStr ''exec''), (''arguments'', nestedArgs)]"

text \<open>Two pattern rules whose categories are \<^verbatim>\<open>a\<close> and \<^verbatim>\<open>ab\<close>; their one pattern
  is the letter c.\<close>

definition prefixRules :: "rule list" where
  "prefixRules =
     [\<lparr> category = ''a'', severity = ''warning'', label = None,
         regexes = [rxTest (Atom (Lit CHR ''c''))], toolRules = None \<rparr>,
      \<lparr> category = ''ab'', severity = ''warning'', label = None,
         regexes = [rxTest (Atom (Lit CHR ''c''))], toolRules = None \<rparr>]"

definition surveillanceRules :: "rule list" where
  "surveillanceRules = [\<lparr> category = ''surveillance'', severity = ''warning'',
      label = Some ''Surveillance/privacy'', regexes = [],
      toolRules = Some [\<lparr> toolName = ''browser'', actions = Some [''screenshot'', ''snapshot''] \<rparr>,
                        \<lparr> toolName = ''image'', actions = None \<rparr>] \<rparr>]"

definition browserBlock :: json where
  "browserBlock = JObj [(''type'', JStr ''toolCall''), (''name'', JStr ''browser''),
     (''input'', JObj [(''action'', JStr ''screenshot'')])]"

definition imageBlock :: json where
  "imageBlock = JObj [(''type'', JStr ''toolCall''), (''name'', JStr ''image'')]"

definition emptyActionRules :: "rule list" where
  "emptyActionRules = [\<lparr> category = ''surveillance'', severity = ''warning'', label = None,
      regexes = [], toolRules = Some [\<lparr> toolName = ''browser'', actions = Some [[], ''snapshot''] \<rparr>] \<rparr>]"

definition emptyActionBlock :: json where
  "emptyActionBlock = JObj [(''type'', JStr ''toolCall''), (''name'', JStr ''browser''),
     (''arguments'', JObj [(''action'', JStr [])])]"





definition messageEntry :: "string \<Rightarrow> nat \<Rightarrow> entry" where
  "messageEntry i n = Decoded (JObj [(''type'', JStr ''message''), (''id'', JStr i)]) n"

definition fiveMessages :: "entry list" where
  "fiveMessages =
     [Decoded (JObj [(''type'', JStr ''session''), (''id'', JStr ''s1'')]) 1,
      messageEntry ''m1'' 2, messageEntry ''m2'' 3, messageEntry ''m3'' 4,
      messageEntry ''m4'' 5, messageEntry ''m5'' 6]"

definition fullyRead :: progressEntry where
  "fullyRead = \<lparr> lastReadId = Some ''m5'', lastReadAt = Some ''t0'', totalMsgs = Some 5,
     unreadCount = Some 0, readAll = Some True, customLabel = None \<rparr>"

definition partlyRead :: progressEntry where
  "partlyRead = \<lparr> lastReadId = Some ''m3'', lastReadAt = Some ''t0'', totalMsgs = Some 5,
     unreadCount = Some 2, readAll = Some False, customLabel = Some ''build log'' \<rparr>"


section \<open>Properties of the danger scan\<close>

subsection \<open>Tool rules\<close>

lemma foldl_toolRuleStep:
  "foldl (toolRuleStep mid tn ta r) hits trs =
     hits @ map (\<lambda>tr. toolHit mid tn ta r) (filter (toolMatch tn ta) trs)"
  by (induction trs arbitrary: hits) (simp_all add: toolRuleStep_def)

lemma toolRulesOf_append:
  "toolRulesOf mid tn ta hits r = hits @ toolRulesOf mid tn ta [] r"
  by (simp add: toolRulesOf_def foldl_toolRuleStep split: option.splits)

lemma foldl_toolRulesOf:
  "foldl (toolRulesOf mid tn ta) hits rs =
     hits @ concat (map (toolRulesOf mid tn ta []) rs)"
proof (induction rs arbitrary: hits)
  case Nil
  show ?case by simp
next
  case (Cons r rs)
  have "foldl (toolRulesOf mid tn ta) hits (r # rs) =
      foldl (toolRulesOf mid tn ta) (toolRulesOf mid tn ta hits r) rs"
    by simp
  also have "\<dots> = toolRulesOf mid tn ta hits r @ concat (map (toolRulesOf mid tn ta []) rs)"
    by (rule Cons.IH)
  also have "\<dots> = hits @ concat (map (toolRulesOf mid tn ta []) (r # rs))"
    using toolRulesOf_append [of mid tn ta hits r] by simp
  finally show ?case .
qed

lemma toolHits_concat:
  "toolHits compiled mid tn ta = concat (map (toolRulesOf mid tn ta []) compiled)"
  by (simp add: toolHits_def foldl_toolRulesOf)

subsection \<open>Pattern rules\<close>

lemma hitsOf_step:
  "patternStep mid tn s (hitsOf mid tn st) r = hitsOf mid tn (matchStep s st r)"
  by (simp add: patternStep_def matchStep_def hitsOf_def)

lemma hitsOf_rules:
  "foldl (patternStep mid tn s) (hitsOf mid tn st) rs = hitsOf mid tn (foldl (matchStep s) st rs)"
  by (induction rs arbitrary: st) (simp_all add: hitsOf_step)

lemma hitsOf_strings:
  "foldl (\<lambda>st s. foldl (patternStep mid tn s) st rs) (hitsOf mid tn st) ss =
     hitsOf mid tn (foldl (\<lambda>st s. foldl (matchStep s) st rs) st ss)"
  by (induction ss arbitrary: st) (simp_all add: hitsOf_rules)

lemma patternHits_matches:
  "patternHits compiled mid tn strings =
     map (\<lambda>p. patternHit mid tn (fst p) (snd p)) (patternMatches compiled strings)"
proof -
  have "hitsOf mid tn ({}, []) = ({}, [])"
    by (simp add: hitsOf_def)
  then show ?thesis
    using hitsOf_strings [of mid tn compiled "({}, [])" strings]
    by (simp add: patternHits_def patternMatches_def hitsOf_def)
qed

lemma matchInv_step:
  "matchInv rs ss st \<Longrightarrow> r \<in> set rs \<Longrightarrow> s \<in> set ss \<Longrightarrow> matchInv rs ss (matchStep s st r)"
  by (auto simp: matchInv_def matchStep_def patternKey_def list_ex_iff)

lemma matchInv_rules:
  "matchInv rs ss st \<Longrightarrow> set rs' \<subseteq> set rs \<Longrightarrow> s \<in> set ss \<Longrightarrow>
     matchInv rs ss (foldl (matchStep s) st rs')"
  by (induction rs' arbitrary: st) (simp_all add: matchInv_step)

lemma matchInv_strings:
  "matchInv rs ss st \<Longrightarrow> set ss' \<subseteq> set ss \<Longrightarrow>
     matchInv rs ss (foldl (\<lambda>st s. foldl (matchStep s) st rs) st ss')"
  by (induction ss' arbitrary: st) (simp_all add: matchInv_rules)

lemma matchInv_final:
  "matchInv rs ss (foldl (\<lambda>st s. foldl (matchStep s) st rs) ({}, []) ss)"
  by (rule matchInv_strings) (simp_all add: matchInv_def)

lemma matched_mono_step: "fst st \<subseteq> fst (matchStep s st r)"
  by (auto simp: matchStep_def)

lemma matched_mono_rules: "fst st \<subseteq> fst (foldl (matchStep s) st rs)"
proof (induction rs arbitrary: st)
  case Nil
  show ?case by simp
next
  case (Cons r rs)
  have "fst st \<subseteq> fst (matchStep s st r)"
    by (rule matched_mono_step)
  also have "\<dots> \<subseteq> fst (foldl (matchStep s) (matchStep s st r) rs)"
    by (rule Cons.IH)
  finally show ?case by simp
qed

lemma matched_mono_strings:
  "fst st \<subseteq> fst (foldl (\<lambda>st s. foldl (matchStep s) st rs) st ss)"
proof (induction ss arbitrary: st)
  case Nil
  show ?case by simp
next
  case (Cons s ss)
  have "fst st \<subseteq> fst (foldl (matchStep s) st rs)"
    by (rule matched_mono_rules)
  also have "\<dots> \<subseteq> fst (foldl (\<lambda>st s. foldl (matchStep s) st rs) (foldl (matchStep s) st rs) ss)"
    by (rule Cons.IH)
  finally show ?case by simp
qed

lemma key_after_step:
  "toolRules r = None \<Longrightarrow> \<exists>rx\<in>set (regexes r). rx s \<Longrightarrow> category r @ s \<in> fst (matchStep s st r)"
  by (auto simp: matchStep_def list_ex_iff)

lemma key_after_rules:
  "r \<in> set rs \<Longrightarrow> toolRules r = None \<Longrightarrow> \<exists>rx\<in>set (regexes r). rx s \<Longrightarrow>
     category r @ s \<in> fst (foldl (matchStep s) st rs)"
proof (induction rs arbitrary: st)
  case Nil
  then show ?case by simp
next
  case (Cons q rs)
  show ?case
  proof (cases "r \<in> set rs")
    case True
    then show ?thesis using Cons by simp
  next
    case False
    with Cons.prems have "q = r" by simp
    then have "category r @ s \<in> fst (matchStep s st q)"
      using Cons.prems key_after_step by blast
    then show ?thesis
      using matched_mono_rules [of "matchStep s st q" s rs] by auto
  qed
qed

lemma key_after_strings:
  "s \<in> set ss \<Longrightarrow> r \<in> set rs \<Longrightarrow> toolRules r = None \<Longrightarrow> \<exists>rx\<in>set (regexes r). rx s \<Longrightarrow>
     category r @ s \<in> fst (foldl (\<lambda>st s. foldl (matchStep s) st rs) st ss)"
proof (induction ss arbitrary: st)
  case Nil
  then show ?case by simp
next
  case (Cons t ss)
  show ?case
  proof (cases "s \<in> set ss")
    case True
    then show ?thesis using Cons by simp
  next
    case False
    with Cons.prems have "t = s" by simp
    then have "category r @ s \<in> fst (foldl (matchStep t) st rs)"
      using Cons.prems key_after_rules by blast
    then show ?thesis
      using matched_mono_strings [of "foldl (matchStep t) st rs" rs ss] by auto
  qed
qed

lemma patternHits_once:
  "\<exists>ms. patternHits compiled mid tn strings = map (\<lambda>p. patternHit mid tn (fst p) (snd p)) ms \<and>
     distinct (map (\<lambda>p. (category (fst p), snd p)) ms) \<and>
     (\<forall>p\<in>set ms. fst p \<in> set compiled \<and> toolRules (fst p) = None \<and> snd p \<in> set strings \<and>
        (\<exists>rx\<in>set (regexes (fst p)). rx (snd p))) \<and>
     (\<forall>r\<in>set compiled. \<forall>s\<in>set strings.
        toolRules r = None \<longrightarrow> (\<exists>rx\<in>set (regexes r). rx s) \<longrightarrow>
        (\<forall>r'\<in>set compiled. \<forall>s'\<in>set strings.
           category r' @ s' = category r @ s \<longrightarrow> category r' = category r \<and> s' = s) \<longrightarrow>
        (\<exists>p\<in>set ms. category (fst p) = category r \<and> snd p = s))"
proof -
  let ?st = "foldl (\<lambda>st s. foldl (matchStep s) st compiled) ({}, []) strings"
  let ?ms = "patternMatches compiled strings"
  have ms: "?ms = snd ?st"
    by (simp add: patternMatches_def)
  have inv: "matchInv compiled strings ?st"
    by (rule matchInv_final)
  have a: "patternHits compiled mid tn strings = map (\<lambda>p. patternHit mid tn (fst p) (snd p)) ?ms"
    by (rule patternHits_matches)
  have "distinct (map patternKey ?ms)"
    using inv by (simp add: matchInv_def ms)
  moreover have "map patternKey ?ms =
      map (\<lambda>q. fst q @ snd q) (map (\<lambda>p. (category (fst p), snd p)) ?ms)"
    by (simp add: patternKey_def)
  ultimately have "distinct (map (\<lambda>q. fst q @ snd q) (map (\<lambda>p. (category (fst p), snd p)) ?ms))"
    by (simp only:)
  then have b: "distinct (map (\<lambda>p. (category (fst p), snd p)) ?ms)"
    using distinct_map [of "\<lambda>q. fst q @ snd q" "map (\<lambda>p. (category (fst p), snd p)) (patternMatches compiled strings)"] by blast
  have c: "\<forall>p\<in>set ?ms. fst p \<in> set compiled \<and> toolRules (fst p) = None \<and> snd p \<in> set strings \<and>
        (\<exists>rx\<in>set (regexes (fst p)). rx (snd p))"
    using inv by (simp add: matchInv_def ms)
  have d: "\<exists>p\<in>set ?ms. category (fst p) = category r \<and> snd p = s"
    if r: "r \<in> set compiled" and s: "s \<in> set strings" and t: "toolRules r = None"
      and m: "\<exists>rx\<in>set (regexes r). rx s"
      and inj: "\<forall>r'\<in>set compiled. \<forall>s'\<in>set strings.
           category r' @ s' = category r @ s \<longrightarrow> category r' = category r \<and> s' = s"
    for r s
  proof -
    have "category r @ s \<in> fst ?st"
      using key_after_strings [OF s r t m] .
    then have "category r @ s \<in> patternKey ` set ?ms"
      using inv by (simp add: matchInv_def ms)
    then obtain p where p: "p \<in> set ?ms" "category (fst p) @ snd p = category r @ s"
      by (auto simp: patternKey_def)
    from c p(1) have "fst p \<in> set compiled" "snd p \<in> set strings"
      by auto
    with inj p(2) have "category (fst p) = category r \<and> snd p = s"
      by blast
    with p(1) show ?thesis by blast
  qed
  from a b c d show ?thesis
    by blast
qed


subsection \<open>The claims about the scan\<close>

lemmas scan_defs = scanObj_def scanBlock_def blockSrc_def blockToolName_def blockToolAction_def
    orElse_def orUndef_def toolHits_def toolRulesOf_def toolRuleStep_def toolMatch_def toolHit_def
    includes_action_def patternHits_def patternStep_def patternHit_def

lemma rmPattern_rm_rf: "rxTest rmPattern ''rm -rf /tmp/x''"
  by (simp add: rmPattern_def upperChar_def lowerChar_def inRange_def)

lemma rmPattern_rm_r: "rxTest rmPattern ''rm -r /a''"
  by (simp add: rmPattern_def upperChar_def lowerChar_def inRange_def)

lemma truthy_orElse: "truthy (orElse a (JStr [])) \<longleftrightarrow> orElse a (JStr []) \<noteq> JStr []"
  by (auto simp: orElse_def split: option.splits)

text \<open>
  C9: with the one rule \<^verbatim>\<open>destructive-fs\<close> (critical, pattern
  \<^verbatim>\<open>rm\s+-[a-zA-Z]*r\<close>) and a session of one message whose tool call exec has the
  argument \<^verbatim>\<open>{command: "rm -rf /tmp/x"}\<close>, the scan of the session is exactly one
  hit with the message's id, that category and severity, and the command
  \<^verbatim>\<open>exec: rm -rf /tmp/x\<close>. The command of a pattern hit is the tool name (a
  question mark when the block has none), a colon and a space, and the first 200
  characters of the matched string.
\<close>

theorem rm_scenario_one_hit:
  "scanFile rmRules [Some (messageOf i [execBlock ''rm -rf /tmp/x''])] =
     [\<lparr> msgId = Some i, command = ''exec: rm -rf /tmp/x'', hit_category = ''destructive-fs'',
        hit_severity = ''critical'', hit_label = None \<rparr>] \<and>
   command (patternHit mid (blockToolName b) r s) =
     (if blockToolName b = JStr [] then ''?'' else toString (blockToolName b)) @ '': '' @ take 200 s"
proof
  show "scanFile rmRules [Some (messageOf i [execBlock ''rm -rf /tmp/x''])] =
     [\<lparr> msgId = Some i, command = ''exec: rm -rf /tmp/x'', hit_category = ''destructive-fs'',
        hit_severity = ''critical'', hit_label = None \<rparr>]"
    by (simp add: rmRules_def messageOf_def execBlock_def scan_defs rmPattern_rm_rf del: rxTest.simps)
  show "command (patternHit mid (blockToolName b) r s) =
     (if blockToolName b = JStr [] then ''?'' else toString (blockToolName b)) @ '': '' @ take 200 s"
    using truthy_orElse [of "get ''name'' b"]
    by (simp add: patternHit_def blockToolName_def orElse_def)
qed

text \<open>
  C1 as stated fails: one message whose two toolCall blocks carry the same command gets
  two equal hits of the same category.
\<close>

theorem same_string_in_two_blocks_two_hits:
  "scanFile rmRules [Some (messageOf (JStr ''m1'') [execBlock ''rm -rf /tmp/x'', execBlock ''rm -rf /tmp/x''])] =
     [rmHit (JStr ''m1''), rmHit (JStr ''m1'')]"
  by (simp add: rmRules_def messageOf_def execBlock_def rmHit_def scan_defs rmPattern_rm_rf del: rxTest.simps)

lemma walk_nestedArgs: "walk nestedArgs = [''rm -rf /tmp/x'', ''rm -rf /tmp/x'', ''rm -r /a'']"
  by (simp add: nestedArgs_def)

lemma hits_nestedArgs:
  "patternHits rmRules (Some (JStr ''m1'')) (JStr ''exec'') (walk nestedArgs) =
     [rmHit (JStr ''m1''), (rmHit (JStr ''m1'')) \<lparr> command := ''exec: rm -r /a'' \<rparr>]"
  by (simp add: walk_nestedArgs rmRules_def rmHit_def patternHits_def patternStep_def patternHit_def orElse_def
      rmPattern_rm_rf rmPattern_rm_r del: rxTest.simps)

lemma scanBlock_toolCall:
  assumes "get ''type'' b = Some (JStr ''toolCall'')"
  shows "scanBlock compiled mid b =
     Some (toolHits compiled mid (blockToolName b) (blockToolAction b) @
       (case blockSrc b of
          None \<Rightarrow> []
        | Some src \<Rightarrow>
            if truthy src then patternHits compiled mid (blockToolName b) (walk src) else []))"
proof -
  have "b \<noteq> JNull"
    using assms by auto
  then show ?thesis
    using assms by (simp add: scanBlock_def split: option.splits)
qed

text \<open>
  C1, as the scan has it. The set \<open>matched\<close> is made anew for every toolCall block, so
  the deduplication is within one block. What a toolCall block with arguments pushes
  after the hits of the tool-based rules are the hits of pairs of a rule and a
  collected string that never repeat a pair (category, string); each pair is a pattern
  rule of the rule set and a string of the block's arguments that one of its patterns
  matches; and a collected string that a pattern rule matches has a hit under that
  rule's category, provided no other pair of a category and a collected string
  concatenates to the same key.
\<close>

theorem pattern_hits_once_per_block:
  assumes "get ''type'' b = Some (JStr ''toolCall'')" and "blockSrc b = Some src" and "truthy src"
  shows "\<exists>ms. scanBlock compiled mid b =
       Some (toolHits compiled mid (blockToolName b) (blockToolAction b) @
             map (\<lambda>p. patternHit mid (blockToolName b) (fst p) (snd p)) ms) \<and>
     distinct (map (\<lambda>p. (category (fst p), snd p)) ms) \<and>
     (\<forall>p\<in>set ms. fst p \<in> set compiled \<and> toolRules (fst p) = None \<and> snd p \<in> set (walk src) \<and>
        (\<exists>rx\<in>set (regexes (fst p)). rx (snd p))) \<and>
     (\<forall>r\<in>set compiled. \<forall>s\<in>set (walk src).
        toolRules r = None \<longrightarrow> (\<exists>rx\<in>set (regexes r). rx s) \<longrightarrow>
        (\<forall>r'\<in>set compiled. \<forall>s'\<in>set (walk src).
           category r' @ s' = category r @ s \<longrightarrow> category r' = category r \<and> s' = s) \<longrightarrow>
        (\<exists>p\<in>set ms. category (fst p) = category r \<and> snd p = s))"
proof -
  have "scanBlock compiled mid b =
      Some (toolHits compiled mid (blockToolName b) (blockToolAction b) @
        patternHits compiled mid (blockToolName b) (walk src))"
    using assms by (simp add: scanBlock_toolCall)
  moreover obtain ms where
    "patternHits compiled mid (blockToolName b) (walk src) =
       map (\<lambda>p. patternHit mid (blockToolName b) (fst p) (snd p)) ms"
    "distinct (map (\<lambda>p. (category (fst p), snd p)) ms)"
    "\<forall>p\<in>set ms. fst p \<in> set compiled \<and> toolRules (fst p) = None \<and> snd p \<in> set (walk src) \<and>
        (\<exists>rx\<in>set (regexes (fst p)). rx (snd p))"
    "\<forall>r\<in>set compiled. \<forall>s\<in>set (walk src).
        toolRules r = None \<longrightarrow> (\<exists>rx\<in>set (regexes r). rx s) \<longrightarrow>
        (\<forall>r'\<in>set compiled. \<forall>s'\<in>set (walk src).
           category r' @ s' = category r @ s \<longrightarrow> category r' = category r \<and> s' = s) \<longrightarrow>
        (\<exists>p\<in>set ms. category (fst p) = category r \<and> snd p = s)"
    using patternHits_once [of compiled mid "blockToolName b" "walk src"]
    by blast
  ultimately show ?thesis
    by (intro exI [of _ ms]) (simp only: simp_thms)
qed

lemma nestedBlock_facts:
  "get ''type'' nestedBlock = Some (JStr ''toolCall'')" "blockSrc nestedBlock = Some nestedArgs"
  "truthy nestedArgs" "blockToolName nestedBlock = JStr ''exec''" "blockToolAction nestedBlock = JStr []"
  by (simp_all add: nestedBlock_def nestedArgs_def blockSrc_def blockToolName_def blockToolAction_def
      orUndef_def orElse_def)

text \<open>
  C1, at the arguments of one block that hold the same matching string at two places
  and a second matching string: two pairs, so two hits.
\<close>

theorem pattern_hits_once_per_block_witness:
  "walk nestedArgs = [''rm -rf /tmp/x'', ''rm -rf /tmp/x'', ''rm -r /a''] \<and>
   (\<exists>ms. scanBlock rmRules (Some (JStr ''m1'')) nestedBlock =
           Some (map (\<lambda>p. patternHit (Some (JStr ''m1'')) (JStr ''exec'') (fst p) (snd p)) ms) \<and>
         distinct (map (\<lambda>p. (category (fst p), snd p)) ms) \<and>
         length ms = 2)"
proof -
  have t: "toolHits rmRules (Some (JStr ''m1'')) (JStr ''exec'') (JStr []) = []"
    by (simp add: toolHits_def toolRulesOf_def rmRules_def)
  obtain ms where ms:
    "scanBlock rmRules (Some (JStr ''m1'')) nestedBlock =
       Some (map (\<lambda>p. patternHit (Some (JStr ''m1'')) (JStr ''exec'') (fst p) (snd p)) ms)"
    "distinct (map (\<lambda>p. (category (fst p), snd p)) ms)"
    using pattern_hits_once_per_block [OF nestedBlock_facts(1-3), of rmRules "Some (JStr ''m1'')"]
    by (auto simp: nestedBlock_facts t)
  have "scanBlock rmRules (Some (JStr ''m1'')) nestedBlock =
      Some (patternHits rmRules (Some (JStr ''m1'')) (JStr ''exec'') (walk nestedArgs))"
    using scanBlock_toolCall [OF nestedBlock_facts(1), of rmRules "Some (JStr ''m1'')"]
    by (simp add: nestedBlock_facts t)
  then have "length (map (\<lambda>p. patternHit (Some (JStr ''m1'')) (JStr ''exec'') (fst p) (snd p)) ms) = 2"
    using ms(1) by (simp add: hits_nestedArgs)
  then have "length ms = 2"
    by simp
  with ms walk_nestedArgs show ?thesis by blast
qed

text \<open>
  The proviso is needed: the key is the category followed by the string with nothing
  between them. With the categories \<^verbatim>\<open>a\<close> and \<^verbatim>\<open>ab\<close>, the string
  \<^verbatim>\<open>cde\<close> under \<^verbatim>\<open>ab\<close> takes the key of \<^verbatim>\<open>bcde\<close> under \<^verbatim>\<open>a\<close>, which
  then gets no hit of the category \<^verbatim>\<open>a\<close>.
\<close>

lemma colliding_key_suppresses_hit:
  "map (\<lambda>h. (hit_category h, command h))
     (patternHits prefixRules None (JStr ''exec'') [''cde'', ''bcde'']) =
     [(''a'', ''exec: cde''), (''ab'', ''exec: cde''), (''ab'', ''exec: bcde'')]"
  by (simp add: prefixRules_def patternHits_def patternStep_def patternHit_def orElse_def
      upperChar_def)

lemma toolRulesOf_Some:
  assumes "toolRules r = Some trs"
  shows "toolRulesOf mid (blockToolName b) (blockToolAction b) [] r =
     map (\<lambda>tr. \<lparr> msgId = mid,
                 command = (if blockToolAction b = JStr [] then toolName tr
                            else toolName tr @ '': '' @ toString (blockToolAction b)),
                 hit_category = category r, hit_severity = severity r, hit_label = label r \<rparr>)
       (filter (\<lambda>tr. JStr (toolName tr) = blockToolName b \<and>
                  (actions tr = None \<or>
                   (\<exists>acts a. actions tr = Some acts \<and> blockToolAction b = JStr a \<and> a \<noteq> [] \<and> a \<in> set acts)))
          trs)"
proof -
  have t: "truthy (blockToolAction b) \<longleftrightarrow> blockToolAction b \<noteq> JStr []"
    unfolding blockToolAction_def by (rule truthy_orElse)
  have m: "toolMatch (blockToolName b) (blockToolAction b) tr \<longleftrightarrow>
      JStr (toolName tr) = blockToolName b \<and>
        (actions tr = None \<or>
         (\<exists>acts a. actions tr = Some acts \<and> blockToolAction b = JStr a \<and> a \<noteq> [] \<and> a \<in> set acts))"
    for tr
    by (cases "blockToolAction b") (auto simp: toolMatch_def includes_action_def split: option.splits)
  have h: "toolHit mid (blockToolName b) (blockToolAction b) r =
      \<lparr> msgId = mid,
        command = (if blockToolAction b = JStr [] then toolName tr
                   else toolName tr @ '': '' @ toString (blockToolAction b)),
        hit_category = category r, hit_severity = severity r, hit_label = label r \<rparr>"
    if "JStr (toolName tr) = blockToolName b" for tr
    using that [symmetric] t by (simp add: toolHit_def)
  have "toolRulesOf mid (blockToolName b) (blockToolAction b) [] r =
      map (\<lambda>tr. toolHit mid (blockToolName b) (blockToolAction b) r)
        (filter (toolMatch (blockToolName b) (blockToolAction b)) trs)"
    using assms by (simp add: toolRulesOf_def foldl_toolRuleStep)
  also have "\<dots> = map (\<lambda>tr. \<lparr> msgId = mid,
                 command = (if blockToolAction b = JStr [] then toolName tr
                            else toolName tr @ '': '' @ toString (blockToolAction b)),
                 hit_category = category r, hit_severity = severity r, hit_label = label r \<rparr>)
       (filter (toolMatch (blockToolName b) (blockToolAction b)) trs)"
    by (rule map_cong) (auto simp: m h)
  finally show ?thesis
    by (simp add: m cong: filter_cong)
qed

lemma toolRulesOf_None: "toolRules r = None \<Longrightarrow> toolRulesOf mid tn ta [] r = []"
  by (simp add: toolRulesOf_def)

lemma toolHits_per_pair:
  "toolHits compiled mid (blockToolName b) (blockToolAction b) =
     concat (map (\<lambda>r. case toolRules r of
          None \<Rightarrow> []
        | Some trs \<Rightarrow>
            map (\<lambda>tr. \<lparr> msgId = mid,
                        command = (if blockToolAction b = JStr [] then toolName tr
                                   else toolName tr @ '': '' @ toString (blockToolAction b)),
                        hit_category = category r, hit_severity = severity r, hit_label = label r \<rparr>)
              (filter (\<lambda>tr. JStr (toolName tr) = blockToolName b \<and>
                  (actions tr = None \<or>
                   (\<exists>acts a. actions tr = Some acts \<and> blockToolAction b = JStr a \<and> a \<noteq> [] \<and> a \<in> set acts)))
                trs)) compiled)"
proof -
  have "toolRulesOf mid (blockToolName b) (blockToolAction b) [] r =
      (case toolRules r of
          None \<Rightarrow> []
        | Some trs \<Rightarrow>
            map (\<lambda>tr. \<lparr> msgId = mid,
                        command = (if blockToolAction b = JStr [] then toolName tr
                                   else toolName tr @ '': '' @ toString (blockToolAction b)),
                        hit_category = category r, hit_severity = severity r, hit_label = label r \<rparr>)
              (filter (\<lambda>tr. JStr (toolName tr) = blockToolName b \<and>
                  (actions tr = None \<or>
                   (\<exists>acts a. actions tr = Some acts \<and> blockToolAction b = JStr a \<and> a \<noteq> [] \<and> a \<in> set acts)))
                trs))" for r
    by (cases "toolRules r") (simp_all add: toolRulesOf_None toolRulesOf_Some)
  then show ?thesis
    unfolding toolHits_concat by (intro arg_cong [where f = concat] map_cong refl)
qed

text \<open>
  C6, as the scan has it. A toolCall block gets first, for every tool-based rule in
  order, one hit for each of the rule's pairs whose tool name is the block's tool name
  and whose action list is null or holds the block's action, and then the hits of the
  pattern rules. The block's action is its \<^verbatim>\<open>action\<close> argument when that is
  truthy; an absent or empty one is no action, which only a null list matches. The
  command is the tool name alone when there is no action, and otherwise the tool name,
  a colon, a space and the action.
\<close>

theorem tool_rule_hits_per_pair:
  assumes "get ''type'' b = Some (JStr ''toolCall'')"
  shows "scanBlock compiled mid b =
     Some (concat (map (\<lambda>r. case toolRules r of
          None \<Rightarrow> []
        | Some trs \<Rightarrow>
            map (\<lambda>tr. \<lparr> msgId = mid,
                        command = (if blockToolAction b = JStr [] then toolName tr
                                   else toolName tr @ '': '' @ toString (blockToolAction b)),
                        hit_category = category r, hit_severity = severity r, hit_label = label r \<rparr>)
              (filter (\<lambda>tr. JStr (toolName tr) = blockToolName b \<and>
                  (actions tr = None \<or>
                   (\<exists>acts a. actions tr = Some acts \<and> blockToolAction b = JStr a \<and> a \<noteq> [] \<and> a \<in> set acts)))
                trs)) compiled) @
       (case blockSrc b of
          None \<Rightarrow> []
        | Some src \<Rightarrow>
            if truthy src then patternHits compiled mid (blockToolName b) (walk src) else []))"
  unfolding scanBlock_toolCall [OF assms] toolHits_per_pair ..

text \<open>C6, at the browser block with the action screenshot and the surveillance rule.\<close>


theorem tool_rule_hits_per_pair_witness:
  "get ''type'' browserBlock = Some (JStr ''toolCall'') \<and>
   blockToolAction browserBlock = JStr ''screenshot'' \<and>
   scanBlock surveillanceRules (Some (JStr ''m10'')) browserBlock =
     Some [\<lparr> msgId = Some (JStr ''m10''), command = ''browser: screenshot'',
        hit_category = ''surveillance'', hit_severity = ''warning'',
        hit_label = Some ''Surveillance/privacy'' \<rparr>]"
proof -
  have ty: "get ''type'' browserBlock = Some (JStr ''toolCall'')"
    by (simp add: browserBlock_def)
  have n: "blockToolName browserBlock = JStr ''browser''"
    by (simp add: browserBlock_def blockToolName_def orElse_def)
  have a: "blockToolAction browserBlock = JStr ''screenshot''"
    by (simp add: browserBlock_def blockToolAction_def blockSrc_def orElse_def orUndef_def)
  have s: "blockSrc browserBlock = Some (JObj [(''action'', JStr ''screenshot'')])"
    by (simp add: browserBlock_def blockSrc_def orUndef_def)
  have p: "patternHits surveillanceRules (Some (JStr ''m10'')) (JStr ''browser'') [''screenshot''] = []"
    by (simp add: patternHits_def patternStep_def surveillanceRules_def)
  have "scanBlock surveillanceRules (Some (JStr ''m10'')) browserBlock =
     Some [\<lparr> msgId = Some (JStr ''m10''), command = ''browser: screenshot'',
        hit_category = ''surveillance'', hit_severity = ''warning'',
        hit_label = Some ''Surveillance/privacy'' \<rparr>]"
    using tool_rule_hits_per_pair [OF ty, of surveillanceRules "Some (JStr ''m10'')"]
    by (simp add: n a s p) (simp add: surveillanceRules_def n a)
  with ty a show ?thesis by simp
qed

text \<open>
  C6 as stated fails: the block's action argument is the empty string, the rule's
  action list holds the empty string, and no hit is pushed.
\<close>

theorem empty_action_listed_no_hit:
  "get ''action'' (JObj [(''action'', JStr [])]) = Some (JStr []) \<and>
   blockSrc emptyActionBlock = Some (JObj [(''action'', JStr [])]) \<and>
   emptyActionRules = [\<lparr> category = ''surveillance'', severity = ''warning'', label = None,
      regexes = [], toolRules = Some [\<lparr> toolName = ''browser'', actions = Some [[], ''snapshot''] \<rparr>] \<rparr>] \<and>
   scanFile emptyActionRules [Some (messageOf (JStr ''m1'') [emptyActionBlock])] = []"
  by (simp add: emptyActionRules_def emptyActionBlock_def messageOf_def scan_defs)

lemma toolHits_no_action:
  "toolHits compiled mid (blockToolName b) (JStr []) =
     concat (map (\<lambda>r. case toolRules r of
          None \<Rightarrow> []
        | Some trs \<Rightarrow>
            map (\<lambda>tr. \<lparr> msgId = mid, command = toolName tr,
                        hit_category = category r, hit_severity = severity r, hit_label = label r \<rparr>)
              (filter (\<lambda>tr. JStr (toolName tr) = blockToolName b \<and> actions tr = None) trs)) compiled)"
proof -
  have m: "toolMatch (blockToolName b) (JStr []) tr \<longleftrightarrow>
      JStr (toolName tr) = blockToolName b \<and> actions tr = None" for tr
    by (auto simp: toolMatch_def split: option.splits)
  have h: "toolHit mid (blockToolName b) (JStr []) r =
      \<lparr> msgId = mid, command = toolName tr,
        hit_category = category r, hit_severity = severity r, hit_label = label r \<rparr>"
    if "JStr (toolName tr) = blockToolName b" for tr r
    using that [symmetric] by (simp add: toolHit_def)
  have "toolRulesOf mid (blockToolName b) (JStr []) [] r =
      (case toolRules r of
          None \<Rightarrow> []
        | Some trs \<Rightarrow>
            map (\<lambda>tr. \<lparr> msgId = mid, command = toolName tr,
                        hit_category = category r, hit_severity = severity r, hit_label = label r \<rparr>)
              (filter (\<lambda>tr. JStr (toolName tr) = blockToolName b \<and> actions tr = None) trs))" for r
  proof (cases "toolRules r")
    case None
    then show ?thesis by (simp add: toolRulesOf_None)
  next
    case (Some trs)
    have "toolRulesOf mid (blockToolName b) (JStr []) [] r =
        map (\<lambda>tr. toolHit mid (blockToolName b) (JStr []) r)
          (filter (toolMatch (blockToolName b) (JStr [])) trs)"
      using Some by (simp add: toolRulesOf_def foldl_toolRuleStep)
    also have "\<dots> = map (\<lambda>tr. \<lparr> msgId = mid, command = toolName tr,
                        hit_category = category r, hit_severity = severity r, hit_label = label r \<rparr>)
          (filter (toolMatch (blockToolName b) (JStr [])) trs)"
      by (rule map_cong) (auto simp: m h)
    finally show ?thesis
      using Some by (simp add: m cong: filter_cong)
  qed
  then show ?thesis
    unfolding toolHits_concat by (intro arg_cong [where f = concat] map_cong refl)
qed

text \<open>
  C7, as the scan has it. A toolCall block with neither \<^verbatim>\<open>arguments\<close> nor
  \<^verbatim>\<open>input\<close> gets no hit of a pattern rule; it gets exactly the hits of the
  tool-based rules whose pair names its tool with a null action list, each with the
  tool name alone as its command.
\<close>

theorem no_arguments_only_wildcard_tool_hits:
  assumes "get ''type'' b = Some (JStr ''toolCall'')"
    and "get ''arguments'' b = None"
    and "get ''input'' b = None"
  shows "scanBlock compiled mid b =
     Some (concat (map (\<lambda>r. case toolRules r of
          None \<Rightarrow> []
        | Some trs \<Rightarrow>
            map (\<lambda>tr. \<lparr> msgId = mid, command = toolName tr,
                        hit_category = category r, hit_severity = severity r, hit_label = label r \<rparr>)
              (filter (\<lambda>tr. JStr (toolName tr) = blockToolName b \<and> actions tr = None) trs)) compiled))"
proof -
  have "b \<noteq> JNull"
    using assms(1) by auto
  moreover have "blockSrc b = None"
    using assms(2,3) by (simp add: blockSrc_def orUndef_def)
  moreover from this have "blockToolAction b = JStr []"
    by (simp add: blockToolAction_def orElse_def)
  ultimately show ?thesis
    using assms(1) by (simp add: scanBlock_def toolHits_no_action)
qed

text \<open>C7, at an image block without arguments and the surveillance rule.\<close>

theorem no_arguments_only_wildcard_tool_hits_witness:
  "get ''type'' imageBlock = Some (JStr ''toolCall'') \<and> get ''arguments'' imageBlock = None \<and>
   get ''input'' imageBlock = None \<and>
   scanBlock surveillanceRules (Some (JStr ''m12'')) imageBlock =
     Some [\<lparr> msgId = Some (JStr ''m12''), command = ''image'', hit_category = ''surveillance'',
             hit_severity = ''warning'', hit_label = Some ''Surveillance/privacy'' \<rparr>]"
proof -
  have a: "get ''type'' imageBlock = Some (JStr ''toolCall'')"
    and b: "get ''arguments'' imageBlock = None" and c: "get ''input'' imageBlock = None"
    by (simp_all add: imageBlock_def)
  have "blockToolName imageBlock = JStr ''image''"
    by (simp add: imageBlock_def blockToolName_def orElse_def)
  then show ?thesis
    using no_arguments_only_wildcard_tool_hits [OF a b c, of surveillanceRules "Some (JStr ''m12'')"] a b c
    by (simp add: surveillanceRules_def)
qed

text \<open>
  C7 as stated fails: a message whose toolCall block image has neither
  \<^verbatim>\<open>arguments\<close> nor \<^verbatim>\<open>input\<close> gets a hit from the rule that lists image with
  a null action list.
\<close>

theorem block_without_arguments_still_hits:
  "scanFile surveillanceRules [Some (messageOf (JStr ''m12'') [imageBlock])] =
     [\<lparr> msgId = Some (JStr ''m12''), command = ''image'', hit_category = ''surveillance'',
        hit_severity = ''warning'', hit_label = Some ''Surveillance/privacy'' \<rparr>]"
  by (simp add: surveillanceRules_def imageBlock_def messageOf_def scan_defs)

section \<open>Properties of the entry parser\<close>

lemma errorsOf_append: "errorsOf (es @ fs) = errorsOf es @ errorsOf fs"
  by (induction es rule: errorsOf.induct) simp_all






section \<open>Properties of the read progress\<close>

lemma findIndex_None: "findIndex P xs = None \<longleftrightarrow> (\<forall>x\<in>set xs. \<not> P x)"
  by (induction xs) auto

lemma findIndex_first:
  "\<forall>x\<in>set pre. \<not> P x \<Longrightarrow> P m \<Longrightarrow> findIndex P (pre @ m # post) = Some (length pre)"
  by (induction pre) simp_all

lemma unreadAfter_found:
  assumes "\<forall>e\<in>set pre. \<not> (isMessage e \<and> hasId i e)" and "isMessage m" and "hasId i m"
  shows "unreadAfter (filter isMessage (pre @ m # post)) i = int (length (filter isMessage post))"
proof -
  have "\<forall>e\<in>set (filter isMessage pre). \<not> hasId i e"
    using assms(1) by auto
  then have "findIndex (hasId i) (filter isMessage pre @ m # filter isMessage post) =
      Some (length (filter isMessage pre))"
    using assms(3) by (rule findIndex_first)
  then show ?thesis
    using assms(2) by (simp add: unreadAfter_def)
qed

lemma unreadAfter_missing:
  assumes "\<forall>e\<in>set es. \<not> (isMessage e \<and> hasId i e)"
  shows "unreadAfter (filter isMessage es) i = int (length (filter isMessage es))"
proof -
  have "findIndex (hasId i) (filter isMessage es) = None"
    using assms by (simp add: findIndex_None)
  then show ?thesis
    by (simp add: unreadAfter_def)
qed

lemma last_message_marked:
  assumes "isMessage m" and "hasId i m" and "\<forall>e\<in>set post. \<not> (isMessage e \<and> hasId i e)"
  shows "(filter isMessage (pre @ m # post) \<noteq> [] \<and> hasId i (last (filter isMessage (pre @ m # post)))) \<longleftrightarrow>
     filter isMessage post = []"
proof (cases "filter isMessage post = []")
  case True
  then show ?thesis using assms(1,2) by simp
next
  case False
  then have "last (filter isMessage post) \<in> set (filter isMessage post)"
    by (rule last_in_set)
  then have "\<not> hasId i (last (filter isMessage post))"
    using assms(3) by auto
  then show ?thesis
    using False assms(1) by simp
qed

text \<open>
  C5, as the handler has it. With the danger-only view on, marking changes nothing.
  With it off, the record under the session's key gets \<open>lastReadId\<close> the marked id
  and the total of messages; \<open>readAll\<close> says whether the last message carries the
  marked id; when a message carries the id, \<open>unreadCount\<close> is the number of messages
  after the first such message (so 0 when it is the last one), and \<open>readAll\<close> holds
  exactly when no message follows it, given that no later message repeats the id; when
  no message carries the id, \<open>unreadCount\<close> is the number of all messages.
\<close>

theorem mark_read_effect:
  assumes pk: "pk = rowKey (find (\<lambda>r. Filename r = fname) sessions) fname"
  shows "handleMarkRead True sessions entries now prog fname i = prog \<and>
    (\<exists>p. handleMarkRead False sessions entries now prog fname i pk = Some p \<and>
       lastReadId p = Some i \<and> lastReadAt p = Some now \<and>
       totalMsgs p = Some (int (length (filter isMessage entries))) \<and>
       customLabel p = customLabel (entryOr prog pk) \<and>
       readAll p = Some (filter isMessage entries \<noteq> [] \<and> hasId i (last (filter isMessage entries))) \<and>
       (\<forall>pre m post. entries = pre @ m # post \<and> isMessage m \<and> hasId i m \<and>
           (\<forall>e\<in>set pre. \<not> (isMessage e \<and> hasId i e)) \<longrightarrow>
           unreadCount p = Some (int (length (filter isMessage post))) \<and>
           ((\<forall>e\<in>set post. \<not> (isMessage e \<and> hasId i e)) \<longrightarrow>
              readAll p = Some (filter isMessage post = []))) \<and>
       ((\<forall>e\<in>set entries. \<not> (isMessage e \<and> hasId i e)) \<longrightarrow>
           unreadCount p = Some (int (length (filter isMessage entries)))))"
proof -
  let ?msgs = "filter isMessage entries"
  let ?p = "(entryOr prog pk)
      \<lparr> lastReadId := Some i, lastReadAt := Some now, totalMsgs := Some (int (length ?msgs)),
        unreadCount := Some (unreadAfter ?msgs i),
        readAll := Some (?msgs \<noteq> [] \<and> hasId i (last ?msgs)) \<rparr>"
  have a: "handleMarkRead True sessions entries now prog fname i = prog"
    by (simp add: handleMarkRead_def)
  have b: "handleMarkRead False sessions entries now prog fname i pk = Some ?p"
    by (simp add: handleMarkRead_def pk Let_def)
  have c: "unreadCount ?p = Some (int (length (filter isMessage post))) \<and>
      ((\<forall>e\<in>set post. \<not> (isMessage e \<and> hasId i e)) \<longrightarrow> readAll ?p = Some (filter isMessage post = []))"
    if "entries = pre @ m # post" "isMessage m" "hasId i m" "\<forall>e\<in>set pre. \<not> (isMessage e \<and> hasId i e)"
    for pre m post
    using that unreadAfter_found [of pre i m post] last_message_marked [of m i post pre]
    by simp
  have d: "unreadCount ?p = Some (int (length ?msgs))"
    if "\<forall>e\<in>set entries. \<not> (isMessage e \<and> hasId i e)"
    using unreadAfter_missing [OF that] by simp
  have e: "lastReadId ?p = Some i \<and> lastReadAt ?p = Some now \<and>
      totalMsgs ?p = Some (int (length ?msgs)) \<and> customLabel ?p = customLabel (entryOr prog pk) \<and>
      readAll ?p = Some (?msgs \<noteq> [] \<and> hasId i (last ?msgs))"
    by simp
  have f: "\<forall>pre m post. entries = pre @ m # post \<and> isMessage m \<and> hasId i m \<and>
           (\<forall>e\<in>set pre. \<not> (isMessage e \<and> hasId i e)) \<longrightarrow>
           unreadCount ?p = Some (int (length (filter isMessage post))) \<and>
           ((\<forall>e\<in>set post. \<not> (isMessage e \<and> hasId i e)) \<longrightarrow>
              readAll ?p = Some (filter isMessage post = []))"
    using c by blast
  have g: "(\<forall>e\<in>set entries. \<not> (isMessage e \<and> hasId i e)) \<longrightarrow>
           unreadCount ?p = Some (int (length ?msgs))"
    using d by blast
  from b e f g have "\<exists>p. handleMarkRead False sessions entries now prog fname i pk = Some p \<and>
       lastReadId p = Some i \<and> lastReadAt p = Some now \<and>
       totalMsgs p = Some (int (length (filter isMessage entries))) \<and>
       customLabel p = customLabel (entryOr prog pk) \<and>
       readAll p = Some (filter isMessage entries \<noteq> [] \<and> hasId i (last (filter isMessage entries))) \<and>
       (\<forall>pre m post. entries = pre @ m # post \<and> isMessage m \<and> hasId i m \<and>
           (\<forall>e\<in>set pre. \<not> (isMessage e \<and> hasId i e)) \<longrightarrow>
           unreadCount p = Some (int (length (filter isMessage post))) \<and>
           ((\<forall>e\<in>set post. \<not> (isMessage e \<and> hasId i e)) \<longrightarrow>
              readAll p = Some (filter isMessage post = []))) \<and>
       ((\<forall>e\<in>set entries. \<not> (isMessage e \<and> hasId i e)) \<longrightarrow>
           unreadCount p = Some (int (length (filter isMessage entries))))"
    by (intro exI [of _ ?p]) (simp only: simp_thms)
  with a show ?thesis
    by (rule conjI)
qed

text \<open>C5, at a session of five messages with the third marked: two unread, not all read.\<close>

theorem mark_read_effect_witness:
  "\<exists>p. handleMarkRead False [] fiveMessages ''t1'' Map.empty ''a.jsonl'' ''m3'' ''a.jsonl'' = Some p \<and>
     lastReadId p = Some ''m3'' \<and> unreadCount p = Some 2 \<and> readAll p = Some False"
proof -
  have pk: "''a.jsonl'' = rowKey (find (\<lambda>r. Filename r = ''a.jsonl'') []) ''a.jsonl''"
    by (simp add: rowKey_def)
  obtain p where p: "handleMarkRead False [] fiveMessages ''t1'' Map.empty ''a.jsonl'' ''m3'' ''a.jsonl'' = Some p"
    "lastReadId p = Some ''m3''"
    "\<forall>pre m post. fiveMessages = pre @ m # post \<and> isMessage m \<and> hasId ''m3'' m \<and>
           (\<forall>e\<in>set pre. \<not> (isMessage e \<and> hasId ''m3'' e)) \<longrightarrow>
           unreadCount p = Some (int (length (filter isMessage post))) \<and>
           ((\<forall>e\<in>set post. \<not> (isMessage e \<and> hasId ''m3'' e)) \<longrightarrow>
              readAll p = Some (filter isMessage post = []))"
    using mark_read_effect [OF pk, of fiveMessages "''t1''" Map.empty "''m3''"] by blast
  have "fiveMessages =
      [Decoded (JObj [(''type'', JStr ''session''), (''id'', JStr ''s1'')]) 1,
       messageEntry ''m1'' 2, messageEntry ''m2'' 3] @ messageEntry ''m3'' 4 #
      [messageEntry ''m4'' 5, messageEntry ''m5'' 6] \<and>
    isMessage (messageEntry ''m3'' 4) \<and> hasId ''m3'' (messageEntry ''m3'' 4) \<and>
    (\<forall>e\<in>set [Decoded (JObj [(''type'', JStr ''session''), (''id'', JStr ''s1'')]) 1,
       messageEntry ''m1'' 2, messageEntry ''m2'' 3]. \<not> (isMessage e \<and> hasId ''m3'' e))"
    by (simp add: fiveMessages_def messageEntry_def)
  with p(3) have "unreadCount p = Some (int (length (filter isMessage [messageEntry ''m4'' 5, messageEntry ''m5'' 6]))) \<and>
      ((\<forall>e\<in>set [messageEntry ''m4'' 5, messageEntry ''m5'' 6]. \<not> (isMessage e \<and> hasId ''m3'' e)) \<longrightarrow>
        readAll p = Some (filter isMessage [messageEntry ''m4'' 5, messageEntry ''m5'' 6] = []))"
    by blast
  then have "unreadCount p = Some 2 \<and> readAll p = Some False"
    by (simp add: messageEntry_def)
  with p(1,2) show ?thesis by blast
qed

text \<open>C5 as stated fails: in the danger-only view marking a message stores nothing.\<close>

theorem mark_read_blocked_in_danger_view:
  "handleMarkRead True [] fiveMessages ''t1'' Map.empty ''a.jsonl'' ''m3'' ''a.jsonl'' = None"
  by (simp add: handleMarkRead_def)

subsection \<open>Recomputation\<close>









section \<open>Growth, migration and file access at concrete inputs\<close>




text \<open>
  C3 fails on the code. The progress holds a record under the file name
  \<^verbatim>\<open>a.jsonl\<close>, and the session list has that file without a session id. The
  migration deletes the key from the copy, the loop over the sessions stores a fresh
  record under the file name, and the progress set holds that one: the last read
  position and the label are lost.
\<close>

theorem unmapped_legacy_record_lost:
  "initialLoad [\<lparr> filename = ''a.jsonl'', sessionId = None \<rparr>] [''a.jsonl'' \<mapsto> 5] [(''a.jsonl'', partlyRead)] =
     [(''a.jsonl'', \<lparr> lastReadId = None, lastReadAt = None, totalMsgs = Some 5, unreadCount = Some 5,
         readAll = None, customLabel = None \<rparr>)] \<and>
   migratedProgress [\<lparr> filename = ''a.jsonl'', sessionId = None \<rparr>] [(''a.jsonl'', partlyRead)] = []"
  by (simp add: initialLoad_def migratedProgress_def migrate_def migrateStep_def sidMapOf_def isLegacyKey_def
      loadStep_def sessionKey_def objectAssign_def orZero_def noLastRead_def emptyEntry_def partlyRead_def
      Let_def upt_rec suffix_to_prefix sublist_Cons_right)

text \<open>
  C8 fails on the code. The file \<^verbatim>\<open>a.jsonl\<close> has the session id \<^verbatim>\<open>sid1\<close>. The
  copy \<open>migratedProg\<close> loses the legacy key, but line 154 assigns the copy onto the
  fetched object, which still has it: the progress set holds the record under both
  keys, and, when \<^verbatim>\<open>sid1\<close> had a record, still holds the legacy record.
\<close>

theorem migrated_legacy_key_survives:
  "initialLoad [\<lparr> filename = ''a.jsonl'', sessionId = Some ''sid1'' \<rparr>] [''a.jsonl'' \<mapsto> 5] [(''a.jsonl'', partlyRead)] =
     [(''a.jsonl'', partlyRead), (''sid1'', partlyRead)] \<and>
   initialLoad [\<lparr> filename = ''a.jsonl'', sessionId = Some ''sid1'' \<rparr>] [''a.jsonl'' \<mapsto> 5]
       [(''a.jsonl'', partlyRead), (''sid1'', fullyRead)] =
     [(''a.jsonl'', partlyRead), (''sid1'', fullyRead)] \<and>
   migratedProgress [\<lparr> filename = ''a.jsonl'', sessionId = Some ''sid1'' \<rparr>] [(''a.jsonl'', partlyRead)] =
     [(''sid1'', partlyRead)]"
  by (simp add: initialLoad_def migratedProgress_def migrate_def migrateStep_def sidMapOf_def isLegacyKey_def
      loadStep_def sessionKey_def objectAssign_def orZero_def noLastRead_def emptyEntry_def partlyRead_def
      fullyRead_def Let_def upt_rec suffix_to_prefix sublist_Cons_right)

lemma resolve_sibling: "resolve ''/srv/app'' ''/data/sessions'' ''../sessions-old/x.jsonl'' = ''/data/sessions-old/x.jsonl''"
  by (simp add: resolve_def isAbsolute_def normStep_def)

text \<open>
  C10 fails on the code. The sessions directory is \<^verbatim>\<open>/data/sessions\<close>; the name
  \<^verbatim>\<open>../sessions-old/x.jsonl\<close> resolves to a file of the sibling directory
  \<^verbatim>\<open>/data/sessions-old\<close>, whose path starts with the characters of the sessions
  directory, and readSession returns its content.
\<close>

theorem sibling_directory_is_read:
  "readSession [''/data/sessions-old/x.jsonl'' \<mapsto> ''secret''] ''/srv/app'' ''/data/sessions''
       ''../sessions-old/x.jsonl'' = Some ''secret'' \<and>
   resolve ''/srv/app'' ''/data/sessions'' ''../sessions-old/x.jsonl'' = ''/data/sessions-old/x.jsonl'' \<and>
   \<not> insideDir ''/data/sessions'' ''/data/sessions-old/x.jsonl''"
  by (simp add: readSession_def resolve_sibling insideDir_def)

end
